theory Spec2Isabelle
  imports Complex_Main "HOL-Library.Sublist" "HOL-Library.List_Lexorder" "HOL-Library.Char_ord"
begin

section \<open>Python strings\<close>

text \<open>
  A Python \<open>str\<close> is a sequence of code points. The model takes the code points below
  256, which is what a \<^typ>\<open>char\<close> holds, so a \<^typ>\<open>string\<close> is a \<open>str\<close> over Latin-1.
  The string methods below are the ones \<open>reupload_with_map.py\<close> calls, with the
  behaviour CPython has on these code points.
\<close>

definition ascii_digit :: "char \<Rightarrow> bool" where
  "ascii_digit c = (let n = (of_char c :: nat) in 48 \<le> n \<and> n \<le> 57)"

definition digit_val :: "char \<Rightarrow> nat" where
  "digit_val c = (of_char c :: nat) - 48"

text \<open>
  \<open>str.isdigit()\<close>: the string is not empty and every character has the Unicode
  property Digit or Decimal. Below 256 these are \<open>0\<close>..\<open>9\<close> and the superscripts
  U+00B2, U+00B3 and U+00B9.
\<close>

definition isdigit_char :: "char \<Rightarrow> bool" where
  "isdigit_char c =
     (let n = (of_char c :: nat) in (48 \<le> n \<and> n \<le> 57) \<or> n = 178 \<or> n = 179 \<or> n = 185)"

definition isdigit :: "string \<Rightarrow> bool" where
  "isdigit s = (s \<noteq> [] \<and> list_all isdigit_char s)"

text \<open>\<open>sub in s\<close> on strings: \<open>sub\<close> occurs in \<open>s\<close> as a contiguous block.\<close>

fun contains :: "string \<Rightarrow> string \<Rightarrow> bool" where
  "contains sub [] = (sub = [])"
| "contains sub (c # cs) = (prefix sub (c # cs) \<or> contains sub cs)"

text \<open>
  \<open>s.replace(old, '''')\<close> for a non-empty \<open>old\<close>: the occurrences of \<open>old\<close> are found
  from the left, without overlap, and each is dropped. \<open>skip\<close> counts the characters
  of the occurrence just found that are still to be dropped.
\<close>

fun replace_skip :: "string \<Rightarrow> nat \<Rightarrow> string \<Rightarrow> string" where
  "replace_skip old skip [] = []"
| "replace_skip old skip (c # cs) =
     (if 0 < skip then replace_skip old (skip - 1) cs
      else if prefix old (c # cs) then replace_skip old (length old - 1) cs
      else c # replace_skip old 0 cs)"

definition replace_empty :: "string \<Rightarrow> string \<Rightarrow> string" where
  "replace_empty old s = replace_skip old 0 s"

text \<open>
  \<open>str.strip()\<close> drops the whitespace at both ends; below 256 the whitespace characters
  are U+0009..U+000D, U+001C..U+0020, U+0085 and U+00A0.
\<close>

definition isspace_char :: "char \<Rightarrow> bool" where
  "isspace_char c =
     (let n = (of_char c :: nat)
      in (9 \<le> n \<and> n \<le> 13) \<or> (28 \<le> n \<and> n \<le> 32) \<or> n = 133 \<or> n = 160)"

definition strip :: "string \<Rightarrow> string" where
  "strip s = rev (dropWhile isspace_char (rev (dropWhile isspace_char s)))"

text \<open>\<open>str.lower()\<close>: below 256 the upper-case letters are \<open>A\<close>..\<open>Z\<close> and U+00C0..U+00DE
  without U+00D7, each 32 below its lower-case letter.\<close>

definition lower_char :: "char \<Rightarrow> char" where
  "lower_char c =
     (let n = (of_char c :: nat)
      in if (65 \<le> n \<and> n \<le> 90) \<or> (192 \<le> n \<and> n \<le> 222 \<and> n \<noteq> 215)
         then char_of (n + 32) else c)"

definition lower :: "string \<Rightarrow> string" where
  "lower s = map lower_char s"

text \<open>
  \<open>int(s)\<close> on a string, \<open>None\<close> where Python raises \<open>ValueError\<close>. The literal is:
  whitespace, an optional sign, decimal digits in groups joined by single underscores,
  whitespace. The whitespace \<open>int\<close> skips is U+0009..U+000D, U+0020, U+0085 and U+00A0
  (not U+001C..U+001F); the digits are \<open>0\<close>..\<open>9\<close> only. A literal with more digits
  than the interpreter's limit \<open>sys.get_int_max_str_digits()\<close>, 4300 unless it is
  changed, raises \<open>ValueError\<close> as well; underscores do not count, leading zeros do.
\<close>

definition int_max_str_digits :: nat where
  "int_max_str_digits = 4300"

definition int_space :: "char \<Rightarrow> bool" where
  "int_space c =
     (let n = (of_char c :: nat) in (9 \<le> n \<and> n \<le> 13) \<or> n = 32 \<or> n = 133 \<or> n = 160)"

fun digits_value :: "nat \<Rightarrow> bool \<Rightarrow> string \<Rightarrow> nat option" where
  "digits_value acc after_digit [] = (if after_digit then Some acc else None)"
| "digits_value acc after_digit (c # cs) =
     (if ascii_digit c then digits_value (10 * acc + digit_val c) True cs
      else if c = CHR ''_'' \<and> after_digit \<and> cs \<noteq> [] \<and> ascii_digit (hd cs)
           then digits_value acc False cs
      else None)"

definition literal_value :: "string \<Rightarrow> nat option" where
  "literal_value body =
     (if int_max_str_digits < length (filter ascii_digit body) then None
      else digits_value 0 False body)"

definition int_of_str :: "string \<Rightarrow> int option" where
  "int_of_str s =
     (let t = rev (dropWhile int_space (rev (dropWhile int_space s)))
      in case t of
           [] \<Rightarrow> None
         | c # cs \<Rightarrow>
             if c = CHR ''-'' then map_option (\<lambda>n. - int n) (literal_value cs)
             else if c = CHR ''+'' then map_option int (literal_value cs)
             else map_option int (literal_value (c # cs)))"

section \<open>Python values\<close>

text \<open>
  What \<open>r.json()\<close> can return, and what the script stores in its pairs. A float is a
  rational, an infinity or NaN; the model uses only whether a float is zero and what
  \<open>int\<close> makes of it, which is the same for \<open>0.0\<close> and \<open>-0.0\<close>. A dictionary is the
  list of its items and a lookup takes the first item with the key. The integers of a
  response have at most 4300 digits, since the JSON decoder reads them with \<open>int\<close>.
\<close>

datatype pyfloat = Finite rat | PosInf | NegInf | NaN

datatype pyval =
    PNone
  | PBool bool
  | PInt int
  | PFloat pyfloat
  | PStr string
  | PList "pyval list"
  | PDict "(string \<times> pyval) list"

datatype py_exception =
    ValueError | TypeError | AttributeError | OverflowError | EOFError | SystemExit

text \<open>The truth value Python gives a value in \<open>if x:\<close> and \<open>x or y\<close>.\<close>

fun truthy :: "pyval \<Rightarrow> bool" where
  "truthy PNone = False"
| "truthy (PBool b) = b"
| "truthy (PInt i) = (i \<noteq> 0)"
| "truthy (PFloat (Finite q)) = (q \<noteq> 0)"
| "truthy (PFloat f) = True"
| "truthy (PStr s) = (s \<noteq> [])"
| "truthy (PList xs) = (xs \<noteq> [])"
| "truthy (PDict d) = (d \<noteq> [])"

text \<open>\<open>d.get(k)\<close> and \<open>d.get(k, default)\<close>.\<close>

definition dict_get_default :: "(string \<times> pyval) list \<Rightarrow> string \<Rightarrow> pyval \<Rightarrow> pyval" where
  "dict_get_default d k dflt = (case map_of d k of None \<Rightarrow> dflt | Some v \<Rightarrow> v)"

definition dict_get :: "(string \<times> pyval) list \<Rightarrow> string \<Rightarrow> pyval" where
  "dict_get d k = dict_get_default d k PNone"

text \<open>\<open>int(x)\<close>: a float is cut towards zero; an infinity raises \<open>OverflowError\<close>, NaN and
  a string that is no integer literal raise \<open>ValueError\<close>, \<open>None\<close>, lists and
  dictionaries raise \<open>TypeError\<close>.\<close>

fun py_int :: "pyval \<Rightarrow> py_exception + int" where
  "py_int PNone = Inl TypeError"
| "py_int (PBool b) = Inr (if b then 1 else 0)"
| "py_int (PInt i) = Inr i"
| "py_int (PFloat (Finite q)) = Inr (if 0 \<le> q then \<lfloor>q\<rfloor> else \<lceil>q\<rceil>)"
| "py_int (PFloat NaN) = Inl ValueError"
| "py_int (PFloat f) = Inl OverflowError"
| "py_int (PStr s) = (case int_of_str s of None \<Rightarrow> Inl ValueError | Some i \<Rightarrow> Inr i)"
| "py_int (PList xs) = Inl TypeError"
| "py_int (PDict d) = Inl TypeError"

section \<open>Output and effects\<close>

text \<open>
  The script prints, sleeps, calls the network and writes one file. Each function of the
  model returns, beside its value, the list of these effects in the order they happen.
  \<open>WriteFile f t\<close> is a write of \<open>f\<close> that completed with the text \<open>t\<close>; \<open>WriteCut f t\<close>
  is a write that an exception ended after \<open>t\<close>.
  A printed line is kept as the message it is with the values it shows, not as rendered
  text.
\<close>

datatype message =
    ErrOpenFile string string
  | InfoSearching string
  | ErrInvalidAssetId string
  | MsgProcessing int
  | StepDownloading int
  | ErrDownloadFailed int string
  | OkDownloaded int string
  | StepUploading string
  | ErrUploadFailed int string
  | SuccessUploadResponse int
  | MsgNewAssetId int pyval
  | MsgCouldNotFind int
  | MsgResponse pyval
  | MsgDashes
  | MsgMapSaved
  | MsgUseFile
  | ErrMapNotSaved string
  | MsgBatchStart nat
  | MsgBatchCount nat nat
  | MsgBatchComplete
  | MsgExiting
  | MsgReturning
  | MsgMustBeNumber

datatype event =
    Print message
  | Download int
  | Upload string string string string string
  | Sleep nat
  | WriteFile string string
  | WriteCut string string

section \<open>The file extractor\<close>

text \<open>
  An \<open>xml.etree.ElementTree\<close> element: its tag, its attribute dictionary, its text
  (\<open>None\<close> when there is none; \<open>etext\<close> is the attribute \<open>.text\<close>) and its child
  elements in document order.
\<close>

datatype element =
  Element (tag: string) (attrib: "(string \<times> string) list") (etext: "string option")
    (children: "element list")

text \<open>\<open>root.findall(".//Item")\<close>: every element below \<open>root\<close>, at any depth, whose tag is
  \<open>Item\<close>, in document order; \<open>root\<close> itself is not among them.\<close>

fun descendants :: "element \<Rightarrow> element list" where
  "descendants (Element t a x cs) = concat (map (\<lambda>c. c # descendants c) cs)"

definition findall_Item :: "element \<Rightarrow> element list" where
  "findall_Item rt = filter (\<lambda>e. tag e = ''Item'') (descendants rt)"

text \<open>\<open>item.find("Properties")\<close>: the first child with that tag, or \<open>None\<close>.\<close>

definition find_Properties :: "element \<Rightarrow> element option" where
  "find_Properties item = find (\<lambda>e. tag e = ''Properties'') (children item)"

text \<open>\<open>prop.attrib.get("name") or ""\<close>.\<close>

definition name_or_empty :: "element \<Rightarrow> string" where
  "name_or_empty prop = (case map_of (attrib prop) ''name'' of None \<Rightarrow> [] | Some v \<Rightarrow> v)"

text \<open>The body of the inner loop (lines 73 to 79), on the set collected so far.\<close>

definition scan_prop :: "string set \<Rightarrow> element \<Rightarrow> string set" where
  "scan_prop animation_ids prop =
     (if contains ''AnimationId'' (tag prop) \<or> contains ''AnimationId'' (name_or_empty prop)
      then (case etext prop of
              None \<Rightarrow> animation_ids
            | Some v \<Rightarrow>
                if v = [] then animation_ids
                else let v' = (if contains ''rbxassetid://'' v
                               then replace_empty ''rbxassetid://'' v else v)
                     in if isdigit v' then insert v' animation_ids else animation_ids)
      else animation_ids)"

text \<open>The body of the outer loop (lines 70 to 72).\<close>

definition scan_item :: "string set \<Rightarrow> element \<Rightarrow> string set" where
  "scan_item animation_ids item =
     (case find_Properties item of
        None \<Rightarrow> animation_ids
      | Some properties \<Rightarrow> foldl scan_prop animation_ids (children properties))"

text \<open>
  \<open>extract_animation_ids(rbxl_path)\<close>. What \<open>ET.parse\<close> does with the file is the second
  argument: \<open>Inl e\<close> when it raises (the file cannot be opened or is not well-formed XML,
  \<open>e\<close> the exception's text), \<open>Inr rt\<close> when it returns a tree with root \<open>rt\<close>.
\<close>

definition extract_animation_ids :: "string \<Rightarrow> string + element \<Rightarrow> string set \<times> event list" where
  "extract_animation_ids rbxl_path parsed =
     (case parsed of
        Inl e \<Rightarrow> ({}, [Print (ErrOpenFile rbxl_path e)])
      | Inr rt \<Rightarrow>
          (foldl scan_item {} (findall_Item rt), [Print (InfoSearching rbxl_path)]))"

section \<open>Download and upload\<close>

text \<open>
  \<open>download_asset\<close> and \<open>upload_asset\<close> wrap one HTTP request each and return a pair
  \<open>(ok, value)\<close>. What the network answers is not decided by the script, so the two
  functions are parameters of the model: \<open>Inl msg\<close> stands for \<open>(False, msg)\<close> and
  \<open>Inr v\<close> for \<open>(True, v)\<close>. A download gives the bytes and a file name; an upload
  gives whatever \<open>r.json()\<close> decoded.
\<close>

record downloaded =
  bytes :: string
  filename :: string

record transport =
  download_asset :: "int \<Rightarrow> string + downloaded"
  upload_asset :: "string \<Rightarrow> string \<Rightarrow> string \<Rightarrow> string \<Rightarrow> string \<Rightarrow> string + pyval"

section \<open>The reupload of one asset\<close>

text \<open>
  Lines 160 to 162: \<open>new_id\<close> stays \<open>None\<close> unless \<open>res\<close> is a dictionary; then it is
  \<open>res.get("assetId") or res.get("id") or res.get("data", {}).get("assetId")\<close>.
  The third operand is evaluated only when the first two are false, and calling \<open>.get\<close>
  on a value that is no dictionary raises \<open>AttributeError\<close>.
\<close>

definition resolve_new_id :: "pyval \<Rightarrow> py_exception + pyval" where
  "resolve_new_id res =
     (case res of
        PDict d \<Rightarrow>
          if truthy (dict_get d ''assetId'') then Inr (dict_get d ''assetId'')
          else if truthy (dict_get d ''id'') then Inr (dict_get d ''id'')
          else (case dict_get_default d ''data'' (PDict []) of
                  PDict dd \<Rightarrow> Inr (dict_get dd ''assetId'')
                | _ \<Rightarrow> Inl AttributeError)
      | _ \<Rightarrow> Inr PNone)"

text \<open>
  \<open>process_reupload(asset_id, dname, ddesc, atype)\<close>, with \<open>asset_id\<close> a string as both
  callers pass it. The result is the returned pair, or the exception that leaves the
  function, together with the effects up to that point.
\<close>

definition process_reupload ::
  "transport \<Rightarrow> string \<Rightarrow> string \<Rightarrow> string \<Rightarrow> string
     \<Rightarrow> (py_exception + bool \<times> pyval) \<times> event list" where
  "process_reupload net asset_id dname ddesc atype =
     (case int_of_str asset_id of
        None \<Rightarrow> (Inr (False, PNone), [Print (ErrInvalidAssetId asset_id)])
      | Some asset_id_int \<Rightarrow>
         (let ev1 = [Print (MsgProcessing asset_id_int), Print (StepDownloading asset_id_int),
                     Download asset_id_int]
          in (case download_asset net asset_id_int of
                Inl err \<Rightarrow>
                  (Inr (False, PNone), ev1 @ [Print (ErrDownloadFailed asset_id_int err)])
              | Inr data \<Rightarrow>
                 (let ev2 = ev1 @ [Print (OkDownloaded asset_id_int (filename data)),
                                   Print (StepUploading dname),
                                   Upload (bytes data) (filename data) dname ddesc atype]
                  in (case upload_asset net (bytes data) (filename data) dname ddesc atype of
                        Inl err \<Rightarrow>
                          (Inr (False, PNone), ev2 @ [Print (ErrUploadFailed asset_id_int err)])
                      | Inr res \<Rightarrow>
                         (let ev3 = ev2 @ [Print (SuccessUploadResponse asset_id_int)]
                          in (case resolve_new_id res of
                                Inl exn \<Rightarrow> (Inl exn, ev3)
                              | Inr new_id \<Rightarrow>
                                 (if truthy new_id
                                  then (Inr (True, new_id),
                                        ev3 @ [Print (MsgNewAssetId asset_id_int new_id),
                                               Print MsgDashes, Sleep 1])
                                  else (Inr (False, PNone),
                                        ev3 @ [Print (MsgCouldNotFind asset_id_int),
                                               Print (MsgResponse res), Print MsgDashes,
                                               Sleep 1])))))))))"

section \<open>Saving the map\<close>

text \<open>One entry of \<open>map_data\<close>: the dictionary \<open>{"oldId": int(old), "newId": int(new)}\<close>.\<close>

record id_pair =
  oldId :: int
  newId :: int

text \<open>The loop of lines 184 and 185; \<open>int(old)\<close> is evaluated before \<open>int(new)\<close> and the
  first exception ends the function.\<close>

fun map_data_loop :: "id_pair list \<Rightarrow> (pyval \<times> pyval) list \<Rightarrow> py_exception + id_pair list" where
  "map_data_loop map_data [] = Inr map_data"
| "map_data_loop map_data ((old, new) # rest) =
     (case py_int old of
        Inl exn \<Rightarrow> Inl exn
      | Inr old_int \<Rightarrow>
          (case py_int new of
             Inl exn \<Rightarrow> Inl exn
           | Inr new_int \<Rightarrow>
               map_data_loop (map_data @ [\<lparr>oldId = old_int, newId = new_int\<rparr>]) rest))"

text \<open>The decimal text of an integer, as \<open>json.dump\<close> writes it.\<close>

fun show_nat :: "nat \<Rightarrow> string" where
  "show_nat n =
     (if n < 10 then [char_of (48 + n)]
      else show_nat (n div 10) @ [char_of (48 + n mod 10)])"

declare show_nat.simps [simp del]

definition show_int :: "int \<Rightarrow> string" where
  "show_int i = (if i < 0 then CHR ''-'' # show_nat (nat (- i)) else show_nat (nat i))"

text \<open>
  \<open>json.dump(map_data, f, indent=2)\<close> on a list of such dictionaries: \<open>[]\<close> for the empty
  list; otherwise one item per block, each line indented by two spaces per level, the
  items of a level separated by a comma and a line break, a key and its value by a colon
  and a space.
\<close>

definition newline :: string where
  "newline = [CHR 0x0A]"

definition dump_id_pair :: "id_pair \<Rightarrow> string" where
  "dump_id_pair p =
     ''  {'' @ newline @
     ''    '' @ [CHR 0x22] @ ''oldId'' @ [CHR 0x22] @ '': '' @ show_int (oldId p) @ '','' @ newline @
     ''    '' @ [CHR 0x22] @ ''newId'' @ [CHR 0x22] @ '': '' @ show_int (newId p) @ newline @
     ''  }''"

fun join :: "string \<Rightarrow> string list \<Rightarrow> string" where
  "join sep [] = []"
| "join sep [x] = x"
| "join sep (x # y # ys) = x @ sep @ join sep (y # ys)"

definition json_dump_indent2 :: "id_pair list \<Rightarrow> string" where
  "json_dump_indent2 map_data =
     (if map_data = [] then ''[]''
      else ''['' @ newline @ join ('','' @ newline) (map dump_id_pair map_data) @ newline @ '']'')"

text \<open>
  \<open>json.dump\<close> turns an integer into text with \<open>int.__repr__\<close>, which raises
  \<open>ValueError\<close> for more than 4300 digits (the sign does not count). The encoder hands
  its output to the file piece by piece, so what has been written then is the text in
  front of that integer: \<open>dump_stops\<close> gives it from the first item on, \<open>None\<close> when no
  integer is too long.
\<close>

definition too_long :: "int \<Rightarrow> bool" where
  "too_long i = (int_max_str_digits < length (show_nat (nat \<bar>i\<bar>)))"

fun dump_stops :: "id_pair list \<Rightarrow> string option" where
  "dump_stops [] = None"
| "dump_stops (p # ps) =
     (if too_long (oldId p)
      then Some (''  {'' @ newline @ ''    '' @ [CHR 0x22] @ ''oldId'' @ [CHR 0x22] @ '': '')
      else if too_long (newId p)
      then Some (''  {'' @ newline @
                 ''    '' @ [CHR 0x22] @ ''oldId'' @ [CHR 0x22] @ '': '' @ show_int (oldId p) @
                 '','' @ newline @ ''    '' @ [CHR 0x22] @ ''newId'' @ [CHR 0x22] @ '': '')
      else map_option (\<lambda>w. dump_id_pair p @ '','' @ newline @ w) (dump_stops ps))"

text \<open>
  \<open>save_id_map(id_pairs_list)\<close>. \<open>write_error\<close> says what opening and writing the file
  does: \<open>None\<close> when it works, \<open>Some e\<close> when it raises. The function catches and prints
  that exception and the one of the encoder.
\<close>

definition save_id_map ::
  "string option \<Rightarrow> (pyval \<times> pyval) list \<Rightarrow> (py_exception + unit) \<times> event list" where
  "save_id_map write_error id_pairs_list =
     (case map_data_loop [] id_pairs_list of
        Inl exn \<Rightarrow> (Inl exn, [])
      | Inr map_data \<Rightarrow>
          (case write_error of
             None \<Rightarrow>
               (case dump_stops map_data of
                  None \<Rightarrow>
                    (Inr (), [WriteFile ''reupload_map.json'' (json_dump_indent2 map_data),
                              Print MsgMapSaved, Print MsgUseFile])
                | Some written \<Rightarrow>
                    (Inr (), [WriteCut ''reupload_map.json'' (''['' @ newline @ written),
                              Print (ErrMapNotSaved
                                (''Exceeds the limit (4300 digits) for integer string conversion; '' @
                                 ''use sys.set_int_max_str_digits() to increase the limit''))]))
           | Some e \<Rightarrow> (Inr (), [Print (ErrMapNotSaved e)])))"

section \<open>The two session loops\<close>

text \<open>
  Each call of \<open>process_reupload\<close> in a session meets the network anew: \<open>nets k\<close> is what
  the network does during the \<open>k\<close>-th call. A loop ends with an exception
  (\<open>Inl\<close>) or with the list \<open>all_id_pairs\<close> it has built.
\<close>

text \<open>The \<open>for\<close> loop of the batch mode, lines 237 to 245, on the identifiers still to
  process; \<open>count\<close> is the counter before the step.\<close>

fun batch_loop ::
  "(nat \<Rightarrow> transport) \<Rightarrow> string \<Rightarrow> string \<Rightarrow> string \<Rightarrow> nat \<Rightarrow> nat
     \<Rightarrow> (pyval \<times> pyval) list \<Rightarrow> string list
     \<Rightarrow> (py_exception + (pyval \<times> pyval) list) \<times> event list" where
  "batch_loop nets dname_prefix ddesc atype n_ids count all_id_pairs [] =
     (Inr all_id_pairs, [])"
| "batch_loop nets dname_prefix ddesc atype n_ids count all_id_pairs (asset_id # rest) =
     (let ev = [Print (MsgBatchCount (count + 1) n_ids)]
      in (case process_reupload (nets count) asset_id (dname_prefix @ asset_id) ddesc atype of
            (Inl exn, ev') \<Rightarrow> (Inl exn, ev @ ev')
          | (Inr (success, new_id), ev') \<Rightarrow>
             (let pairs' = (if success \<and> truthy new_id
                            then all_id_pairs @ [(PStr asset_id, new_id)]
                            else all_id_pairs)
              in (case batch_loop nets dname_prefix ddesc atype n_ids (count + 1) pairs' rest of
                    (r, ev'') \<Rightarrow> (r, ev @ ev' @ ev'')))))"

text \<open>
  The batch mode from line 235 on, for a non-empty set \<open>ids_to_process\<close>:
  \<open>sorted\<close> puts the strings in the order of their code points, the loop runs, and the
  map is saved when a pair has been collected.
\<close>

definition batch_reupload ::
  "(nat \<Rightarrow> transport) \<Rightarrow> string option \<Rightarrow> string set \<Rightarrow> string \<Rightarrow> string \<Rightarrow> string
     \<Rightarrow> (py_exception + unit) \<times> event list" where
  "batch_reupload nets write_error ids_to_process dname_prefix ddesc atype =
     (let n_ids = card ids_to_process;
          ev = [Print (MsgBatchStart n_ids)]
      in (case batch_loop nets dname_prefix ddesc atype n_ids 0 []
                 (sorted_list_of_set ids_to_process) of
            (Inl exn, ev') \<Rightarrow> (Inl exn, ev @ ev')
          | (Inr all_id_pairs, ev') \<Rightarrow>
              if all_id_pairs \<noteq> []
              then (case save_id_map write_error all_id_pairs of
                      (r, ev'') \<Rightarrow> (r, ev @ ev' @ [Print MsgBatchComplete] @ ev''))
              else (Inr (), ev @ ev' @ [Print MsgBatchComplete])))"

text \<open>\<open>x or y\<close> on strings.\<close>

definition or_str :: "string \<Rightarrow> string \<Rightarrow> string" where
  "or_str x y = (if x \<noteq> [] then x else y)"

text \<open>
  The loop of the manual mode, lines 254 to 277, on the lines still to come from the
  keyboard; \<open>input\<close> raises \<open>EOFError\<close> when there is none. \<open>k\<close> counts the calls of
  \<open>process_reupload\<close> made so far. \<open>quit\<close> leaves through \<open>sys.exit()\<close>, that is with
  \<open>SystemExit\<close>; \<open>b\<close> leaves the loop normally.
\<close>

fun manual_loop ::
  "(nat \<Rightarrow> transport) \<Rightarrow> string option \<Rightarrow> nat \<Rightarrow> (pyval \<times> pyval) list \<Rightarrow> string list
     \<Rightarrow> (py_exception + unit) \<times> event list" where
  "manual_loop nets write_error k all_id_pairs [] = (Inl EOFError, [])"
| "manual_loop nets write_error k all_id_pairs (line # lines) =
     (let aid = strip line
      in if lower aid \<in> {''q'', ''quit'', ''exit''}
         then (if all_id_pairs \<noteq> []
               then (case save_id_map write_error all_id_pairs of
                       (Inl exn, ev) \<Rightarrow> (Inl exn, Print MsgExiting # ev)
                     | (Inr u, ev) \<Rightarrow> (Inl SystemExit, Print MsgExiting # ev))
               else (Inl SystemExit, [Print MsgExiting]))
         else if lower aid = ''b''
         then (if all_id_pairs \<noteq> []
               then (case save_id_map write_error all_id_pairs of
                       (r, ev) \<Rightarrow> (r, Print MsgReturning # ev))
               else (Inr (), [Print MsgReturning]))
         else if \<not> isdigit aid
         then (case manual_loop nets write_error k all_id_pairs lines of
                 (r, ev) \<Rightarrow> (r, Print MsgMustBeNumber # ev))
         else (case lines of
                 l1 # l2 # l3 # lines' \<Rightarrow>
                  (let dname = or_str (strip l1) (''Reupload_'' @ aid);
                       ddesc = strip l2;
                       atype = or_str (strip l3) ''Model''
                   in (case process_reupload (nets k) aid dname ddesc atype of
                         (Inl exn, ev) \<Rightarrow> (Inl exn, ev)
                       | (Inr (success, new_id), ev) \<Rightarrow>
                          (let pairs' = (if success \<and> truthy new_id
                                         then all_id_pairs @ [(PStr aid, new_id)]
                                         else all_id_pairs)
                           in (case manual_loop nets write_error (k + 1) pairs' lines' of
                                 (r, ev') \<Rightarrow> (r, ev @ ev')))))
               | _ \<Rightarrow> (Inl EOFError, [])))"

section \<open>Networks for examples\<close>

text \<open>A network that gives the same answer to every download and the same answer to every
  upload, and a session in which every call meets that network.\<close>

definition fixed_net :: "string + downloaded \<Rightarrow> string + pyval \<Rightarrow> transport" where
  "fixed_net dl ul =
     \<lparr>download_asset = (\<lambda>asset_id. dl), upload_asset = (\<lambda>b f dname ddesc atype. ul)\<rparr>"

definition fixed_nets :: "string + downloaded \<Rightarrow> string + pyval \<Rightarrow> nat \<Rightarrow> transport" where
  "fixed_nets dl ul k = fixed_net dl ul"

definition some_file :: downloaded where
  "some_file = \<lparr>bytes = ''<roblox/>'', filename = ''asset_1.rbxm''\<rparr>"

section \<open>Properties of the extractor\<close>

lemma replace_skip_digit_block:
  "list_all ascii_digit b \<Longrightarrow>
   replace_skip ''rbxassetid://'' 0 (b @ s) = b @ replace_skip ''rbxassetid://'' 0 s"
  by (induction b) (auto simp: ascii_digit_def)

lemma replace_skip_scheme:
  "replace_skip ''rbxassetid://'' 0 (''rbxassetid://'' @ s) = replace_skip ''rbxassetid://'' 0 s"
  by simp

lemma replace_skip_absent: "\<not> contains old s \<Longrightarrow> replace_skip old 0 s = s"
  by (induction s) auto

lemma replace_skip_blocks:
  "list_all (list_all ascii_digit) blocks \<Longrightarrow> list_all ascii_digit d \<Longrightarrow>
   replace_skip ''rbxassetid://'' 0 (concat (map (\<lambda>b. b @ ''rbxassetid://'') blocks) @ d)
     = concat blocks @ d"
proof (induction blocks)
  case Nil
  then show ?case using replace_skip_digit_block [of d "[]"] by simp
next
  case (Cons b blocks)
  then show ?case
    using replace_skip_digit_block [of b] by simp
qed

lemma ascii_digit_isdigit: "s \<noteq> [] \<Longrightarrow> list_all ascii_digit s \<Longrightarrow> isdigit s"
  by (auto simp: isdigit_def ascii_digit_def isdigit_char_def list_all_iff Let_def)

text \<open>
  Claim C10. The scheme is removed wherever it stands in the text, not only in front:
  when the text of a marked property is made of blocks of decimal digits, each followed
  by \<open>rbxassetid://\<close>, and a last block of digits, the identifier added to the set is
  the blocks put together, provided that is not the empty string. The text
  \<open>123rbxassetid://456\<close> gives \<open>123456\<close>.
\<close>

theorem scheme_stripped_everywhere:
  assumes "contains ''AnimationId'' (tag prop) \<or> contains ''AnimationId'' (name_or_empty prop)"
    and "etext prop = Some (concat (map (\<lambda>b. b @ ''rbxassetid://'') blocks) @ d)"
    and "list_all (list_all ascii_digit) blocks" and "list_all ascii_digit d"
    and "concat blocks @ d \<noteq> []"
  shows "scan_prop ids prop = insert (concat blocks @ d) ids"
proof -
  let ?v = "concat (map (\<lambda>b. b @ ''rbxassetid://'') blocks) @ d"
  have r: "replace_skip ''rbxassetid://'' 0 ?v = concat blocks @ d"
    using assms(3,4) by (rule replace_skip_blocks)
  have ne: "?v \<noteq> []" using assms(5) by (cases blocks) auto
  have v': "(if contains ''rbxassetid://'' ?v then replace_empty ''rbxassetid://'' ?v else ?v)
      = concat blocks @ d"
    using r replace_skip_absent [of "''rbxassetid://''" ?v] by (auto simp: replace_empty_def)
  have dg: "isdigit (concat blocks @ d)"
    using assms(3,4,5) by (intro ascii_digit_isdigit) (auto simp: list_all_iff)
  show ?thesis
    unfolding scan_prop_def using assms(1,2) ne v' dg by (simp only: if_True option.case Let_def if_False)
qed

theorem scheme_stripped_everywhere_witness:
  "scan_prop {} (Element ''Content'' [(''name'', ''AnimationId'')] (Some ''123rbxassetid://456'') [])
     = {''123456''}"
  using scheme_stripped_everywhere [of "Element ''Content'' [(''name'', ''AnimationId'')] (Some ''123rbxassetid://456'') []" "[''123'']" "''456''" "{}"]
  by (simp add: name_or_empty_def ascii_digit_def)

lemma scan_prop_set:
  "scan_prop ids prop =
     ids \<union> {v. (contains ''AnimationId'' (tag prop) \<or> contains ''AnimationId'' (name_or_empty prop))
              \<and> (\<exists>t. etext prop = Some t \<and> t \<noteq> [] \<and> v = replace_empty ''rbxassetid://'' t
                      \<and> isdigit v)}"
  using replace_skip_absent [of "''rbxassetid://''"]
  by (auto simp: scan_prop_def Let_def replace_empty_def split: option.splits)

lemma foldl_scan_prop_set:
  "foldl scan_prop ids props =
     ids \<union> {v. \<exists>prop \<in> set props.
                (contains ''AnimationId'' (tag prop) \<or> contains ''AnimationId'' (name_or_empty prop))
                \<and> (\<exists>t. etext prop = Some t \<and> t \<noteq> [] \<and> v = replace_empty ''rbxassetid://'' t
                        \<and> isdigit v)}"
proof (induction props arbitrary: ids)
  case Nil
  then show ?case by simp
next
  case (Cons p props)
  show ?case unfolding foldl_Cons Cons.IH scan_prop_set [of ids p] by auto
qed

lemma scan_item_set:
  "scan_item ids item =
     ids \<union> {v. \<exists>props prop.
                find_Properties item = Some props \<and> prop \<in> set (children props)
                \<and> (contains ''AnimationId'' (tag prop) \<or> contains ''AnimationId'' (name_or_empty prop))
                \<and> (\<exists>t. etext prop = Some t \<and> t \<noteq> [] \<and> v = replace_empty ''rbxassetid://'' t
                        \<and> isdigit v)}"
  by (auto simp: scan_item_def foldl_scan_prop_set split: option.splits)

lemma foldl_scan_item_set:
  "foldl scan_item ids items =
     ids \<union> {v. \<exists>item \<in> set items. \<exists>props prop.
                find_Properties item = Some props \<and> prop \<in> set (children props)
                \<and> (contains ''AnimationId'' (tag prop) \<or> contains ''AnimationId'' (name_or_empty prop))
                \<and> (\<exists>t. etext prop = Some t \<and> t \<noteq> [] \<and> v = replace_empty ''rbxassetid://'' t
                        \<and> isdigit v)}"
proof (induction items arbitrary: ids)
  case Nil
  then show ?case by simp
next
  case (Cons p items)
  show ?case unfolding foldl_Cons Cons.IH scan_item_set [of ids p] by auto
qed

lemma child_in_descendants: "c \<in> set (children e) \<Longrightarrow> c \<in> set (descendants e)"
  by (cases e) auto

lemma descendants_of_child:
  "c \<in> set (children e) \<Longrightarrow> x \<in> set (descendants c) \<Longrightarrow> x \<in> set (descendants e)"
  by (cases e) auto

lemma descendants_below:
  "x \<in> set (descendants e) \<Longrightarrow> (x, e) \<in> {(c, p). c \<in> set (children p)}\<^sup>+"
proof (induction e rule: descendants.induct)
  case (1 t a tx cs)
  then obtain c where c: "c \<in> set cs" and x: "x = c \<or> x \<in> set (descendants c)" by auto
  have ce: "(c, Element t a tx cs) \<in> {(c, p). c \<in> set (children p)}" using c by simp
  from x show ?case
  proof
    assume "x = c"
    then show ?thesis using ce by auto
  next
    assume "x \<in> set (descendants c)"
    then have "(x, c) \<in> {(c, p). c \<in> set (children p)}\<^sup>+" using "1.IH" c by blast
    then show ?thesis using ce by (rule trancl_into_trancl)
  qed
qed

lemma below_descendants:
  "(x, e) \<in> {(c, p). c \<in> set (children p)}\<^sup>+ \<Longrightarrow> x \<in> set (descendants e)"
proof (induction rule: trancl_induct)
  case (base y)
  then show ?case using child_in_descendants by simp
next
  case (step y z)
  then show ?case using descendants_of_child by simp
qed

lemma findall_Item_set:
  "set (findall_Item rt) =
     {item. (item, rt) \<in> {(c, p). c \<in> set (children p)}\<^sup>+ \<and> tag item = ''Item''}"
  using descendants_below below_descendants by (auto simp: findall_Item_def)

text \<open>
  Claim C8. On every document that parses, the result is the set of the digit strings
  found as follows: take every element with the tag \<open>Item\<close> below the root, at any depth;
  its first child with the tag \<open>Properties\<close>; every child of that whose tag or \<open>name\<close>
  attribute contains \<open>AnimationId\<close> and whose text is not empty; remove the scheme
  \<open>rbxassetid://\<close> from the text and keep it when \<open>isdigit\<close> holds. The text
  \<open>rbxassetid://4827491\<close> gives \<open>4827491\<close>, \<open>notanumber\<close> is not kept, the bare \<open>12345\<close>
  is kept; the example document has them in an \<open>Item\<close> inside another \<open>Item\<close>, marked by
  the attribute, by a longer attribute and by the tag, beside an unmarked property. On a
  document that does not parse the result is the empty set, the error is printed and
  nothing is raised.
\<close>

theorem extract_animation_ids_examples:
  "fst (extract_animation_ids path (Inr rt)) =
     {v. \<exists>item props prop t.
           (item, rt) \<in> {(c, p). c \<in> set (children p)}\<^sup>+ \<and> tag item = ''Item''
           \<and> find (\<lambda>e. tag e = ''Properties'') (children item) = Some props
           \<and> prop \<in> set (children props)
           \<and> (contains ''AnimationId'' (tag prop)
                \<or> contains ''AnimationId''
                     (case map_of (attrib prop) ''name'' of None \<Rightarrow> [] | Some n \<Rightarrow> n))
           \<and> etext prop = Some t \<and> t \<noteq> [] \<and> v = replace_empty ''rbxassetid://'' t \<and> isdigit v}
   \<and> snd (extract_animation_ids path (Inr rt)) = [Print (InfoSearching path)]
   \<and> replace_empty ''rbxassetid://'' ''rbxassetid://4827491'' = ''4827491'' \<and> isdigit ''4827491''
   \<and> \<not> isdigit (replace_empty ''rbxassetid://'' ''notanumber'')
   \<and> replace_empty ''rbxassetid://'' ''12345'' = ''12345'' \<and> isdigit ''12345''
   \<and> extract_animation_ids path (Inr (Element ''roblox'' [(''version'', ''4'')] None
       [Element ''Item'' [(''class'', ''Folder'')] None
         [Element ''Properties'' [] None
            [Element ''string'' [(''name'', ''Name'')] (Some ''Animations'') []],
          Element ''Item'' [(''class'', ''Animation'')] None
            [Element ''Properties'' [] None
               [Element ''Content'' [(''name'', ''AnimationId'')] (Some ''rbxassetid://4827491'') [],
                Element ''string'' [(''name'', ''OldAnimationIdNote'')] (Some ''notanumber'') [],
                Element ''AnimationId'' [] (Some ''12345'') [],
                Element ''string'' [(''name'', ''Animation'')] (Some ''777'') []]]]]))
       = ({''4827491'', ''12345''}, [Print (InfoSearching path)])
   \<and> extract_animation_ids path (Inl e) = ({}, [Print (ErrOpenFile path e)])"
proof -
  have general: "fst (extract_animation_ids path (Inr rt)) =
     {v. \<exists>item props prop t.
           (item, rt) \<in> {(c, p). c \<in> set (children p)}\<^sup>+ \<and> tag item = ''Item''
           \<and> find (\<lambda>e. tag e = ''Properties'') (children item) = Some props
           \<and> prop \<in> set (children props)
           \<and> (contains ''AnimationId'' (tag prop)
                \<or> contains ''AnimationId''
                     (case map_of (attrib prop) ''name'' of None \<Rightarrow> [] | Some n \<Rightarrow> n))
           \<and> etext prop = Some t \<and> t \<noteq> [] \<and> v = replace_empty ''rbxassetid://'' t \<and> isdigit v}"
    unfolding extract_animation_ids_def sum.case fst_conv foldl_scan_item_set findall_Item_set
      find_Properties_def name_or_empty_def
    by blast
  have texts: "replace_empty ''rbxassetid://'' ''rbxassetid://4827491'' = ''4827491''"
    "isdigit ''4827491''" "\<not> isdigit (replace_empty ''rbxassetid://'' ''notanumber'')"
    "replace_empty ''rbxassetid://'' ''12345'' = ''12345''" "isdigit ''12345''"
    by (simp_all add: replace_empty_def isdigit_def isdigit_char_def)
  have example: "extract_animation_ids path (Inr (Element ''roblox'' [(''version'', ''4'')] None
       [Element ''Item'' [(''class'', ''Folder'')] None
         [Element ''Properties'' [] None
            [Element ''string'' [(''name'', ''Name'')] (Some ''Animations'') []],
          Element ''Item'' [(''class'', ''Animation'')] None
            [Element ''Properties'' [] None
               [Element ''Content'' [(''name'', ''AnimationId'')] (Some ''rbxassetid://4827491'') [],
                Element ''string'' [(''name'', ''OldAnimationIdNote'')] (Some ''notanumber'') [],
                Element ''AnimationId'' [] (Some ''12345'') [],
                Element ''string'' [(''name'', ''Animation'')] (Some ''777'') []]]]]))
       = ({''4827491'', ''12345''}, [Print (InfoSearching path)])"
    by (simp add: extract_animation_ids_def findall_Item_def scan_item_def find_Properties_def
        scan_prop_def name_or_empty_def replace_empty_def isdigit_def isdigit_char_def
        insert_commute)
  have rest: "snd (extract_animation_ids path (Inr rt)) = [Print (InfoSearching path)]"
    "extract_animation_ids path (Inl e) = ({}, [Print (ErrOpenFile path e)])"
    by (simp_all add: extract_animation_ids_def)
  show ?thesis using general texts example rest by (intro conjI)
qed

section \<open>Properties of the reupload of one asset\<close>

lemma int_of_str_1: "int_of_str ''1'' = Some 1"
  by (simp add: int_of_str_def literal_value_def int_max_str_digits_def int_space_def
      ascii_digit_def digit_val_def)

lemma int_of_str_0: "int_of_str ''0'' = Some 0"
  by (simp add: int_of_str_def literal_value_def int_max_str_digits_def int_space_def
      ascii_digit_def digit_val_def)

lemma int_of_str_minus5: "int_of_str ''-5'' = Some (- 5)"
  by (simp add: int_of_str_def literal_value_def int_max_str_digits_def int_space_def
      ascii_digit_def digit_val_def)

lemma int_of_str_abc: "int_of_str ''abc'' = None"
  by (simp add: int_of_str_def literal_value_def int_max_str_digits_def int_space_def
      ascii_digit_def digit_val_def)

lemma process_reupload_published:
  assumes "int_of_str asset_id = Some i" and "download_asset net i = Inr data"
    and "upload_asset net (bytes data) (filename data) dname ddesc atype = Inr res"
  shows "process_reupload net asset_id dname ddesc atype =
     (let ev3 = [Print (MsgProcessing i), Print (StepDownloading i), Download i,
                 Print (OkDownloaded i (filename data)), Print (StepUploading dname),
                 Upload (bytes data) (filename data) dname ddesc atype,
                 Print (SuccessUploadResponse i)]
      in case resolve_new_id res of
           Inl exn \<Rightarrow> (Inl exn, ev3)
         | Inr new_id \<Rightarrow>
             if truthy new_id
             then (Inr (True, new_id), ev3 @ [Print (MsgNewAssetId i new_id), Print MsgDashes, Sleep 1])
             else (Inr (False, PNone), ev3 @ [Print (MsgCouldNotFind i), Print (MsgResponse res),
                                             Print MsgDashes, Sleep 1]))"
  using assms by (simp add: process_reupload_def Let_def split: sum.splits)

lemma process_reupload_fixed:
  "process_reupload (fixed_net (Inr data) (Inr res)) ''1'' dname ddesc atype =
     (let ev3 = [Print (MsgProcessing 1), Print (StepDownloading 1), Download 1,
                 Print (OkDownloaded 1 (filename data)), Print (StepUploading dname),
                 Upload (bytes data) (filename data) dname ddesc atype,
                 Print (SuccessUploadResponse 1)]
      in case resolve_new_id res of
           Inl exn \<Rightarrow> (Inl exn, ev3)
         | Inr new_id \<Rightarrow>
             if truthy new_id
             then (Inr (True, new_id), ev3 @ [Print (MsgNewAssetId 1 new_id), Print MsgDashes, Sleep 1])
             else (Inr (False, PNone), ev3 @ [Print (MsgCouldNotFind 1), Print (MsgResponse res),
                                             Print MsgDashes, Sleep 1]))"
  by (rule process_reupload_published) (simp_all add: int_of_str_1 fixed_net_def)




text \<open>
  Claim C2 as stated fails: \<open>int\<close> accepts \<open>0\<close> and \<open>-5\<close>, nothing tests the sign, and
  the download is requested for both.
\<close>

theorem non_positive_identifier_counterexample:
  "Download 0 \<in> set (snd (process_reupload (fixed_net (Inr some_file) (Inr (PDict [(''assetId'', PInt 999)])))
        ''0'' ''name'' ''desc'' ''Model''))
   \<and> Download (- 5) \<in> set (snd (process_reupload (fixed_net (Inl ''Download failed 404: '') (Inl ''unused''))
        ''-5'' ''name'' ''desc'' ''Model''))"
  by (simp add: process_reupload_def int_of_str_0 int_of_str_minus5 fixed_net_def Let_def
      resolve_new_id_def dict_get_def dict_get_default_def)

text \<open>
  Claim C2, amended. For every identifier that \<open>int\<close> rejects, the function returns the
  failure \<open>(False, None)\<close> and its only effect is the printed error: no download, no
  upload.
\<close>

theorem invalid_identifier_no_network:
  assumes "int_of_str asset_id = None"
  shows "process_reupload net asset_id dname ddesc atype =
           (Inr (False, PNone), [Print (ErrInvalidAssetId asset_id)])"
  using assms by (simp add: process_reupload_def)

theorem invalid_identifier_no_network_witness:
  "int_of_str ''abc'' = None
   \<and> process_reupload (fixed_net (Inr some_file) (Inr (PDict [(''assetId'', PInt 999)])))
        ''abc'' ''name'' ''desc'' ''Model'' = (Inr (False, PNone), [Print (ErrInvalidAssetId ''abc'')])"
  using invalid_identifier_no_network [of "''abc''"] by (simp add: int_of_str_abc)

text \<open>
  Claim C6 fails on the code: when the publish succeeds with an object that has neither
  a true \<open>assetId\<close> nor a true \<open>id\<close> and whose \<open>data\<close> is a number or \<open>null\<close>, the
  call \<open>.get("assetId")\<close> on that value raises \<open>AttributeError\<close>, which nothing catches.
\<close>

theorem data_not_an_object_raises:
  "fst (process_reupload (fixed_net (Inr some_file) (Inr (PDict [(''data'', PInt 5)])))
          ''1'' ''name'' ''desc'' ''Model'') = Inl AttributeError
   \<and> fst (process_reupload (fixed_net (Inr some_file) (Inr (PDict [(''data'', PNone)])))
          ''1'' ''name'' ''desc'' ''Model'') = Inl AttributeError"
  by (simp add: process_reupload_fixed resolve_new_id_def dict_get_def dict_get_default_def)

text \<open>
  Claim C3 as stated fails: with the response \<open>{"foo": "bar"}\<close> the value returned is
  \<open>(False, None)\<close>, which carries no response and is the very value returned when the
  download fails and when the upload fails.
\<close>

theorem identifier_not_found_counterexample:
  "fst (process_reupload (fixed_net (Inr some_file) (Inr (PDict [(''foo'', PStr ''bar'')])))
          ''1'' ''name'' ''desc'' ''Model'') = Inr (False, PNone)
   \<and> fst (process_reupload (fixed_net (Inl ''Download failed 404: '') (Inl ''unused''))
          ''1'' ''name'' ''desc'' ''Model'') = Inr (False, PNone)
   \<and> fst (process_reupload (fixed_net (Inr some_file) (Inl ''Upload failed 500: ''))
          ''1'' ''name'' ''desc'' ''Model'') = Inr (False, PNone)"
  by (simp add: process_reupload_def int_of_str_1 fixed_net_def Let_def resolve_new_id_def
      dict_get_def dict_get_default_def)

text \<open>
  Claim C3, amended. When the publish succeeds with an object in which none of the three
  fields is present and true (\<open>data\<close> absent or an object), the function prints the raw
  response, pauses and returns \<open>(False, None)\<close>; a run of the same identifier whose
  download or upload fails returns the same value, so the caller tells them apart by the
  printed output only.
\<close>

theorem identifier_not_found_result:
  assumes "int_of_str asset_id = Some i" and "download_asset net i = Inr data"
    and "upload_asset net (bytes data) (filename data) dname ddesc atype = Inr (PDict d)"
    and "\<not> truthy (dict_get d ''assetId'')" and "\<not> truthy (dict_get d ''id'')"
    and "dict_get_default d ''data'' (PDict []) = PDict dd"
    and "\<not> truthy (dict_get dd ''assetId'')"
    and "download_asset net' i = Inl err \<or>
         (download_asset net' i = Inr data'
          \<and> upload_asset net' (bytes data') (filename data') dname ddesc atype = Inl err)"
  shows "process_reupload net asset_id dname ddesc atype =
           (Inr (False, PNone),
            [Print (MsgProcessing i), Print (StepDownloading i), Download i,
             Print (OkDownloaded i (filename data)), Print (StepUploading dname),
             Upload (bytes data) (filename data) dname ddesc atype,
             Print (SuccessUploadResponse i), Print (MsgCouldNotFind i),
             Print (MsgResponse (PDict d)), Print MsgDashes, Sleep 1])
         \<and> fst (process_reupload net' asset_id dname ddesc atype)
             = fst (process_reupload net asset_id dname ddesc atype)"
proof -
  have a: "process_reupload net asset_id dname ddesc atype =
           (Inr (False, PNone),
            [Print (MsgProcessing i), Print (StepDownloading i), Download i,
             Print (OkDownloaded i (filename data)), Print (StepUploading dname),
             Upload (bytes data) (filename data) dname ddesc atype,
             Print (SuccessUploadResponse i), Print (MsgCouldNotFind i),
             Print (MsgResponse (PDict d)), Print MsgDashes, Sleep 1])"
    using assms(4-7) by (simp add: process_reupload_published [OF assms(1,2,3)] resolve_new_id_def)
  have b: "fst (process_reupload net' asset_id dname ddesc atype) = Inr (False, PNone)"
    using assms(1,8) by (auto simp: process_reupload_def Let_def)
  show ?thesis using a b by simp
qed

theorem identifier_not_found_result_witness:
  "process_reupload (fixed_net (Inr some_file) (Inr (PDict [(''foo'', PStr ''bar'')])))
       ''1'' ''name'' ''desc'' ''Model'' =
     (Inr (False, PNone),
      [Print (MsgProcessing 1), Print (StepDownloading 1), Download 1,
       Print (OkDownloaded 1 ''asset_1.rbxm''), Print (StepUploading ''name''),
       Upload ''<roblox/>'' ''asset_1.rbxm'' ''name'' ''desc'' ''Model'',
       Print (SuccessUploadResponse 1), Print (MsgCouldNotFind 1),
       Print (MsgResponse (PDict [(''foo'', PStr ''bar'')])), Print MsgDashes, Sleep 1])
   \<and> fst (process_reupload (fixed_net (Inl ''Download failed 404: '') (Inl ''unused''))
            ''1'' ''name'' ''desc'' ''Model'')
       = fst (process_reupload (fixed_net (Inr some_file) (Inr (PDict [(''foo'', PStr ''bar'')])))
            ''1'' ''name'' ''desc'' ''Model'')"
  using identifier_not_found_result [of "''1''" 1
      "fixed_net (Inr some_file) (Inr (PDict [(''foo'', PStr ''bar'')]))" some_file
      "''name''" "''desc''" "''Model''" "[(''foo'', PStr ''bar'')]" "[]"
      "fixed_net (Inl ''Download failed 404: '') (Inl ''unused'')" "''Download failed 404: ''"]
  by (simp add: int_of_str_1 fixed_net_def dict_get_def dict_get_default_def some_file_def)




section \<open>Properties of the saved map\<close>

lemma map_data_loop_converted:
  "list_all2 (\<lambda>(old, new) r. py_int old = Inr (oldId r) \<and> py_int new = Inr (newId r)) ps recs
   \<Longrightarrow> map_data_loop acc ps = Inr (acc @ recs)"
proof (induction ps recs arbitrary: acc rule: list_all2_induct)
  case Nil
  then show ?case by simp
next
  case (Cons p ps r recs)
  obtain old new where p: "p = (old, new)" by (cases p)
  have "\<lparr>oldId = oldId r, newId = newId r\<rparr> = r" by simp
  with Cons p show ?case by simp
qed

lemma int_max_str_digits_pos: "0 < int_max_str_digits"
  by (simp add: int_max_str_digits_def)

lemma million: "(1000000 :: int) \<le> 10 ^ int_max_str_digits"
proof -
  have "(10 :: int) ^ 6 \<le> 10 ^ int_max_str_digits"
    by (rule power_increasing) (simp_all add: int_max_str_digits_def)
  then show ?thesis by simp
qed

lemma length_show_nat: "n < 10 ^ k \<Longrightarrow> 0 < k \<Longrightarrow> length (show_nat n) \<le> k"
proof (induction n arbitrary: k rule: show_nat.induct)
  case (1 n)
  show ?case
  proof (cases "n < 10")
    case True
    then show ?thesis using 1(3) by (subst show_nat.simps) simp
  next
    case False
    from 1(3) obtain k' where k: "k = Suc k'" by (cases k) auto
    have "0 < k'" using False 1(2) k by (cases k') auto
    moreover have "n div 10 < 10 ^ k'" using 1(2) k by (simp add: div_less_iff_less_mult)
    ultimately have "length (show_nat (n div 10)) \<le> k'" using 1(1) [OF False] by blast
    then show ?thesis using False k by (subst show_nat.simps) simp
  qed
qed

lemma not_too_long: "\<bar>i\<bar> < 10 ^ int_max_str_digits \<Longrightarrow> \<not> too_long i"
proof -
  assume "\<bar>i\<bar> < 10 ^ int_max_str_digits"
  then have "nat \<bar>i\<bar> < 10 ^ int_max_str_digits" by (simp add: nat_less_iff)
  from length_show_nat [OF this int_max_str_digits_pos] show ?thesis by (simp add: too_long_def)
qed

lemma dump_stops_None:
  "\<forall>r \<in> set recs. \<not> too_long (oldId r) \<and> \<not> too_long (newId r) \<Longrightarrow> dump_stops recs = None"
  by (induction recs) auto

lemma save_id_map_converted:
  assumes "list_all2 (\<lambda>(old, new) r. py_int old = Inr (oldId r) \<and> py_int new = Inr (newId r))
             id_pairs_list recs"
    and "\<forall>r \<in> set recs. \<not> too_long (oldId r) \<and> \<not> too_long (newId r)"
  shows "save_id_map None id_pairs_list =
           (Inr (), [WriteFile ''reupload_map.json'' (json_dump_indent2 recs),
                     Print MsgMapSaved, Print MsgUseFile])"
  using map_data_loop_converted [OF assms(1), of "[]"] dump_stops_None [OF assms(2)]
  by (simp add: save_id_map_def)

lemma join_blocks:
  assumes "\<And>r. f r @ sep = concat (map nl (B r))" and "\<And>r. f r @ e = concat (map nl (E r))"
  shows "recs \<noteq> [] \<Longrightarrow>
         join sep (map f recs) @ e = concat (map nl (concat (map B (butlast recs)) @ E (last recs)))"
proof (induction recs)
  case Nil
  then show ?case by simp
next
  case (Cons r rs)
  show ?case
  proof (cases rs)
    case Nil
    then show ?thesis using assms(2) by simp
  next
    case (Cons r' rs')
    have "join sep (map f (r # rs)) @ e = (f r @ sep) @ join sep (map f rs) @ e"
      using Cons by simp
    also have "\<dots> = concat (map nl (B r)) @
                     concat (map nl (concat (map B (butlast rs)) @ E (last rs)))"
      using Cons.IH Cons assms(1) by simp
    finally show ?thesis using Cons by simp
  qed
qed

lemma json_dump_indent2_lines:
  \<open>json_dump_indent2 recs =
     (if recs = [] then ''[]''
      else concat (map (\<lambda>l. l @ [CHR 0x0A])
             (''['' #
              concat (map (\<lambda>r. [''  {'',
                                ''    "oldId": '' @ show_int (oldId r) @ '','',
                                ''    "newId": '' @ show_int (newId r),
                                ''  },'']) (butlast recs)) @
              [''  {'',
               ''    "oldId": '' @ show_int (oldId (last recs)) @ '','',
               ''    "newId": '' @ show_int (newId (last recs)),
               ''  }''])) @ '']'')\<close>
proof (cases "recs = []")
  case True
  then show ?thesis by (simp add: json_dump_indent2_def)
next
  case False
  have \<open>join ('','' @ newline) (map dump_id_pair recs) @ newline =
        concat (map (\<lambda>l. l @ [CHR 0x0A])
          (concat (map (\<lambda>r. [''  {'',
                             ''    "oldId": '' @ show_int (oldId r) @ '','',
                             ''    "newId": '' @ show_int (newId r),
                             ''  },'']) (butlast recs)) @
           (\<lambda>r. [''  {'',
                 ''    "oldId": '' @ show_int (oldId r) @ '','',
                 ''    "newId": '' @ show_int (newId r),
                 ''  }'']) (last recs)))\<close>
    by (rule join_blocks [OF _ _ False]) (simp_all add: dump_id_pair_def newline_def)
  then show ?thesis using False by (simp add: json_dump_indent2_def newline_def)
qed

lemma show_ints: "show_int 123 = ''123''" "show_int 456 = ''456''" "show_int 789 = ''789''"
  "show_int 1011 = ''1011''"
  by code_simp+




lemma digit_char: "d < 10 \<Longrightarrow> ascii_digit (char_of (48 + d)) \<and> digit_val (char_of (48 + d)) = d"
  for d :: nat
  by (simp add: ascii_digit_def digit_val_def)

lemma show_nat_digits: "list_all ascii_digit (show_nat n) \<and> show_nat n \<noteq> []"
proof (induction n rule: show_nat.induct)
  case (1 n)
  show ?case
  proof (cases "n < 10")
    case True
    then show ?thesis using digit_char [of n] by (subst (1 2) show_nat.simps) simp
  next
    case False
    then show ?thesis using 1 [OF False] digit_char [of "n mod 10"]
      by (subst (1 2) show_nat.simps) simp
  qed
qed

lemma show_nat_value: "foldl (\<lambda>a c. 10 * a + digit_val c) 0 (show_nat n) = n"
proof (induction n rule: show_nat.induct)
  case (1 n)
  show ?case
  proof (cases "n < 10")
    case True
    then show ?thesis using digit_char [of n] by (subst show_nat.simps) simp
  next
    case False
    then show ?thesis using 1 [OF False] digit_char [of "n mod 10"]
      by (subst show_nat.simps) simp
  qed
qed

lemma show_nat_no_leading_zero: "n = 0 \<or> hd (show_nat n) \<noteq> CHR ''0''"
proof (induction n rule: show_nat.induct)
  case (1 n)
  show ?case
  proof (cases "n < 10")
    case True
    have "n = 0" if "char_of (48 + n) = CHR ''0''"
    proof -
      from that have "(of_char (char_of (48 + n)) :: nat) = of_char CHR ''0''" by simp
      then show ?thesis using True by simp
    qed
    then show ?thesis using True by (subst show_nat.simps) auto
  next
    case False
    then have "hd (show_nat (n div 10)) \<noteq> CHR ''0''" using 1 [OF False] by auto
    then show ?thesis using False show_nat_digits [of "n div 10"]
      by (subst show_nat.simps) simp
  qed
qed

lemma digits_value_foldl:
  "list_all ascii_digit s \<Longrightarrow> s \<noteq> [] \<or> b \<Longrightarrow>
   digits_value acc b s = Some (foldl (\<lambda>a c. 10 * a + digit_val c) acc s)"
  by (induction s arbitrary: acc b) auto

lemma foldl_digits_bound:
  "list_all ascii_digit s \<Longrightarrow>
   foldl (\<lambda>a c. 10 * a + digit_val c) acc s < (acc + 1) * 10 ^ length s"
proof (induction s arbitrary: acc)
  case Nil
  then show ?case by simp
next
  case (Cons c cs)
  then have d: "digit_val c \<le> 9" by (auto simp: ascii_digit_def digit_val_def Let_def)
  have "foldl (\<lambda>a c. 10 * a + digit_val c) (10 * acc + digit_val c) cs
          < (10 * acc + digit_val c + 1) * 10 ^ length cs"
    using Cons by simp
  also have "\<dots> \<le> (10 * (acc + 1)) * 10 ^ length cs"
    using d by (intro mult_right_mono) simp_all
  finally show ?case by (simp add: algebra_simps)
qed

lemma literal_value_digits:
  assumes "list_all ascii_digit s" and "s \<noteq> []" and "length s \<le> int_max_str_digits"
  shows "literal_value s = Some (foldl (\<lambda>a c. 10 * a + digit_val c) 0 s)"
proof -
  have "filter ascii_digit s = s" using assms(1) by (simp add: list_all_iff)
  then show ?thesis
    using assms(2,3) digits_value_foldl [OF assms(1), of False 0] by (simp add: literal_value_def)
qed

lemma ascii_digit_not_space: "ascii_digit c \<Longrightarrow> \<not> int_space c"
  by (auto simp: ascii_digit_def int_space_def Let_def)

lemma isdigit_char_not_space: "isdigit_char c \<Longrightarrow> \<not> int_space c"
  by (auto simp: isdigit_char_def int_space_def Let_def)

lemma dropWhile_both_ends:
  assumes "s \<noteq> []" and "\<not> P (hd s)" and "\<not> P (last s)"
  shows "rev (dropWhile P (rev (dropWhile P s))) = s"
proof -
  have a: "dropWhile P s = s" using assms(1,2) by (cases s) auto
  from assms(1) obtain ys y where s: "s = ys @ [y]" by (cases s rule: rev_cases) auto
  then have "dropWhile P (rev s) = rev s" using assms(3) by simp
  with a show ?thesis by simp
qed

lemma isdigit_unsigned:
  assumes "isdigit s"
  shows "int_of_str s = map_option int (literal_value s)"
proof -
  from assms obtain c cs where s: "s = c # cs" and c: "isdigit_char c"
    by (cases s) (auto simp: isdigit_def)
  have l: "isdigit_char (last s)" using assms by (auto simp: isdigit_def list_all_iff)
  have "rev (dropWhile int_space (rev (dropWhile int_space s))) = s"
    using s c l isdigit_char_not_space by (intro dropWhile_both_ends) auto
  moreover have "c \<noteq> CHR ''-''" "c \<noteq> CHR ''+''" using c by (auto simp: isdigit_char_def)
  ultimately show ?thesis using s by (simp add: int_of_str_def)
qed

lemma int_of_digits:
  assumes "s \<noteq> []" and "list_all ascii_digit s" and "length s \<le> int_max_str_digits"
  shows "\<exists>n. int_of_str s = Some (int n) \<and> n < 10 ^ int_max_str_digits"
proof -
  let ?n = "foldl (\<lambda>a c. 10 * a + digit_val c) 0 s"
  have v: "int_of_str s = Some (int ?n)"
    using isdigit_unsigned [OF ascii_digit_isdigit [OF assms(1,2)]]
      literal_value_digits [OF assms(2,1,3)] by simp
  have a: "?n < 10 ^ length s" using foldl_digits_bound [OF assms(2), of 0] by simp
  have b: "(10 :: nat) ^ length s \<le> 10 ^ int_max_str_digits"
    using assms(3) by (intro power_increasing) simp_all
  show ?thesis using v less_le_trans [OF a b] by blast
qed

lemma int_of_show_int:
  assumes "\<not> too_long i"
  shows "int_of_str (show_int i) = Some i"
proof -
  let ?ds = "show_nat (nat \<bar>i\<bar>)"
  have len: "length ?ds \<le> int_max_str_digits" using assms by (simp add: too_long_def)
  have ds: "list_all ascii_digit ?ds" "?ds \<noteq> []" using show_nat_digits by blast+
  have lv: "literal_value ?ds = Some (nat \<bar>i\<bar>)"
    using literal_value_digits [OF ds len] show_nat_value by simp
  show ?thesis
  proof (cases "i < 0")
    case False
    then have "show_int i = ?ds" by (simp add: show_int_def)
    then show ?thesis
      using isdigit_unsigned [OF ascii_digit_isdigit [OF ds(2,1)]] lv False by simp
  next
    case True
    then have s: "show_int i = CHR ''-'' # ?ds" by (simp add: show_int_def abs_if)
    have "ascii_digit (last ?ds)" using ds by (simp add: list_all_iff)
    then have "\<not> int_space (last (CHR ''-'' # ?ds))"
      using ds(2) ascii_digit_not_space by simp
    moreover have "\<not> int_space (hd (CHR ''-'' # ?ds))" by (simp add: int_space_def)
    ultimately have "rev (dropWhile int_space (rev (dropWhile int_space (CHR ''-'' # ?ds))))
                       = CHR ''-'' # ?ds"
      by (intro dropWhile_both_ends) simp_all
    then show ?thesis using s lv True by (simp add: int_of_str_def)
  qed
qed

lemma py_int_id_like:
  assumes "(\<exists>i. v = PInt i \<and> \<bar>i\<bar> < 10 ^ int_max_str_digits)
           \<or> (\<exists>s. v = PStr s \<and> s \<noteq> [] \<and> list_all ascii_digit s
                  \<and> length s \<le> int_max_str_digits)"
  shows "\<exists>i. py_int v = Inr i \<and> \<bar>i\<bar> < 10 ^ int_max_str_digits"
  using assms
proof
  assume "\<exists>i. v = PInt i \<and> \<bar>i\<bar> < 10 ^ int_max_str_digits"
  then show ?thesis by auto
next
  assume "\<exists>s. v = PStr s \<and> s \<noteq> [] \<and> list_all ascii_digit s \<and> length s \<le> int_max_str_digits"
  then obtain s where v: "v = PStr s" and s: "s \<noteq> []" "list_all ascii_digit s"
    "length s \<le> int_max_str_digits" by blast
  from int_of_digits [OF s] obtain n where
    n: "int_of_str s = Some (int n)" "n < 10 ^ int_max_str_digits" by blast
  have "int n < int (10 ^ int_max_str_digits)" using n(2) by (simp only: of_nat_less_iff)
  then have "\<bar>int n\<bar> < 10 ^ int_max_str_digits" by simp
  with v n(1) show ?thesis by simp
qed

lemma int_of_str_long:
  assumes "int_max_str_digits < n"
  shows "int_of_str (replicate n CHR ''1'') = None"
proof -
  from assms obtain m where n: "n = Suc m" by (cases n) auto
  have sp: "\<not> int_space CHR ''1''" by (simp add: int_space_def)
  have dg: "ascii_digit CHR ''1''" by (simp add: ascii_digit_def)
  have "literal_value (replicate n CHR ''1'') = None"
    using assms dg by (simp add: literal_value_def)
  then have "literal_value (CHR ''1'' # replicate m CHR ''1'') = None" using n by simp
  moreover have "rev (dropWhile int_space (rev (dropWhile int_space (replicate n CHR ''1''))))
                   = replicate n CHR ''1''"
    using sp by (simp add: dropWhile_replicate)
  then have "rev (dropWhile int_space (rev (dropWhile int_space (replicate n CHR ''1''))))
                   = CHR ''1'' # replicate m CHR ''1''"
    using n by simp
  ultimately show ?thesis by (simp add: int_of_str_def)
qed

text \<open>
  Claim C9 as stated fails. \<open>int\<close> rejects a string of more than 4300 decimal digits
  with \<open>ValueError\<close>, the interpreter's limit on the digits of one conversion: for a
  pair whose old identifier is the digit \<open>1\<close> written 4301 times, \<open>save_id_map\<close> raises
  before the file is opened and nothing is written.
\<close>

theorem long_digit_string_counterexample:
  "save_id_map None [(PStr (replicate 4301 CHR ''1''), PInt 1)] = (Inl ValueError, [])"
proof -
  have "int_of_str (replicate 4301 CHR ''1'') = None"
    by (rule int_of_str_long) (simp add: int_max_str_digits_def)
  then show ?thesis by (simp add: save_id_map_def)
qed

text \<open>
  Claim C9, amended. For every list of pairs whose values are integers of at most 4300
  digits or non-empty strings of at most 4300 decimal digits, \<open>int\<close> converts both
  values of every pair, nothing is raised, and the file written is the pretty-printed
  list in which the value of every \<open>oldId\<close> and \<open>newId\<close> is a JSON integer: a minus
  sign when the integer is negative, then its decimal digits, not empty and with no
  leading zero other than the number zero itself, a text that \<open>int\<close> reads back as the
  same integer. The session loops store the old identifier as a string (\<open>PStr\<close>),
  which is the case of the witness.
\<close>

theorem save_id_map_coerces_to_int:
  assumes \<open>\<forall>v \<in> set (map fst id_pairs_list @ map snd id_pairs_list).
             (\<exists>i. v = PInt i \<and> \<bar>i\<bar> < 10 ^ int_max_str_digits)
             \<or> (\<exists>s. v = PStr s \<and> s \<noteq> [] \<and> list_all ascii_digit s
                    \<and> length s \<le> int_max_str_digits)\<close>
  shows \<open>\<exists>recs :: id_pair list.
           list_all2 (\<lambda>(old, new) r. py_int old = Inr (oldId r) \<and> py_int new = Inr (newId r))
             id_pairs_list recs
           \<and> save_id_map None id_pairs_list =
               (Inr (), [WriteFile ''reupload_map.json''
                           (if recs = [] then ''[]''
                            else concat (map (\<lambda>l. l @ [CHR 0x0A])
                                   (''['' #
                                    concat (map (\<lambda>r. [''  {'',
                                                      ''    "oldId": '' @ show_int (oldId r) @ '','',
                                                      ''    "newId": '' @ show_int (newId r),
                                                      ''  },'']) (butlast recs)) @
                                    [''  {'',
                                     ''    "oldId": '' @ show_int (oldId (last recs)) @ '','',
                                     ''    "newId": '' @ show_int (newId (last recs)),
                                     ''  }''])) @ '']''),
                         Print MsgMapSaved, Print MsgUseFile])
           \<and> (\<forall>r \<in> set recs. \<forall>i \<in> {oldId r, newId r}.
                 show_int i = (if i < 0 then ''-'' else []) @ show_nat (nat \<bar>i\<bar>)
                 \<and> show_nat (nat \<bar>i\<bar>) \<noteq> []
                 \<and> list_all ascii_digit (show_nat (nat \<bar>i\<bar>))
                 \<and> (i = 0 \<or> hd (show_nat (nat \<bar>i\<bar>)) \<noteq> CHR ''0'')
                 \<and> int_of_str (show_int i) = Some i)\<close>
proof -
  have "\<exists>recs :: id_pair list.
          list_all2 (\<lambda>(old, new) r. py_int old = Inr (oldId r) \<and> py_int new = Inr (newId r))
            id_pairs_list recs
          \<and> (\<forall>r \<in> set recs. \<bar>oldId r\<bar> < 10 ^ int_max_str_digits
                            \<and> \<bar>newId r\<bar> < 10 ^ int_max_str_digits)"
    using assms
  proof (induction id_pairs_list)
    case Nil
    then show ?case by simp
  next
    case (Cons p ps)
    obtain old new where p: "p = (old, new)" by (cases p)
    from Cons obtain recs :: "id_pair list" where
      r: "list_all2 (\<lambda>(old, new) r. py_int old = Inr (oldId r) \<and> py_int new = Inr (newId r)) ps recs"
        "\<forall>r \<in> set recs. \<bar>oldId r\<bar> < 10 ^ int_max_str_digits
                        \<and> \<bar>newId r\<bar> < 10 ^ int_max_str_digits"
      by auto
    from Cons.prems p have
      "(\<exists>i. old = PInt i \<and> \<bar>i\<bar> < 10 ^ int_max_str_digits)
       \<or> (\<exists>s. old = PStr s \<and> s \<noteq> [] \<and> list_all ascii_digit s \<and> length s \<le> int_max_str_digits)"
      "(\<exists>i. new = PInt i \<and> \<bar>i\<bar> < 10 ^ int_max_str_digits)
       \<or> (\<exists>s. new = PStr s \<and> s \<noteq> [] \<and> list_all ascii_digit s \<and> length s \<le> int_max_str_digits)"
      by simp_all
    then obtain i j where ij: "py_int old = Inr i" "\<bar>i\<bar> < 10 ^ int_max_str_digits"
      "py_int new = Inr j" "\<bar>j\<bar> < 10 ^ int_max_str_digits"
      using py_int_id_like [of old] py_int_id_like [of new] by blast
    then have "list_all2 (\<lambda>(old, new) r. py_int old = Inr (oldId r) \<and> py_int new = Inr (newId r))
                 (p # ps) (\<lparr>oldId = i, newId = j\<rparr> # recs)
               \<and> (\<forall>r \<in> set (\<lparr>oldId = i, newId = j\<rparr> # recs).
                     \<bar>oldId r\<bar> < 10 ^ int_max_str_digits \<and> \<bar>newId r\<bar> < 10 ^ int_max_str_digits)"
      using r p by simp
    then show ?case by blast
  qed
  then obtain recs :: "id_pair list" where
    conv: "list_all2 (\<lambda>(old, new) r. py_int old = Inr (oldId r) \<and> py_int new = Inr (newId r))
             id_pairs_list recs"
    and small: "\<forall>r \<in> set recs. \<bar>oldId r\<bar> < 10 ^ int_max_str_digits
                              \<and> \<bar>newId r\<bar> < 10 ^ int_max_str_digits"
    by blast
  have short: "\<forall>r \<in> set recs. \<not> too_long (oldId r) \<and> \<not> too_long (newId r)"
    using small not_too_long by blast
  have fields: "show_int i = (if i < 0 then ''-'' else []) @ show_nat (nat \<bar>i\<bar>)
                 \<and> show_nat (nat \<bar>i\<bar>) \<noteq> []
                 \<and> list_all ascii_digit (show_nat (nat \<bar>i\<bar>))
                 \<and> (i = 0 \<or> hd (show_nat (nat \<bar>i\<bar>)) \<noteq> CHR ''0'')
                 \<and> int_of_str (show_int i) = Some i" if "\<not> too_long i" for i
    using that int_of_show_int [OF that] show_nat_digits [of "nat \<bar>i\<bar>"]
      show_nat_no_leading_zero [of "nat \<bar>i\<bar>"]
    by (auto simp: show_int_def abs_if)
  have "\<forall>r \<in> set recs. \<forall>i \<in> {oldId r, newId r}.
                 show_int i = (if i < 0 then ''-'' else []) @ show_nat (nat \<bar>i\<bar>)
                 \<and> show_nat (nat \<bar>i\<bar>) \<noteq> []
                 \<and> list_all ascii_digit (show_nat (nat \<bar>i\<bar>))
                 \<and> (i = 0 \<or> hd (show_nat (nat \<bar>i\<bar>)) \<noteq> CHR ''0'')
                 \<and> int_of_str (show_int i) = Some i"
    using short fields by blast
  moreover note conv
  moreover have \<open>save_id_map None id_pairs_list =
               (Inr (), [WriteFile ''reupload_map.json''
                           (if recs = [] then ''[]''
                            else concat (map (\<lambda>l. l @ [CHR 0x0A])
                                   (''['' #
                                    concat (map (\<lambda>r. [''  {'',
                                                      ''    "oldId": '' @ show_int (oldId r) @ '','',
                                                      ''    "newId": '' @ show_int (newId r),
                                                      ''  },'']) (butlast recs)) @
                                    [''  {'',
                                     ''    "oldId": '' @ show_int (oldId (last recs)) @ '','',
                                     ''    "newId": '' @ show_int (newId (last recs)),
                                     ''  }''])) @ '']''),
                         Print MsgMapSaved, Print MsgUseFile])\<close>
    using save_id_map_converted [OF conv short] by (simp only: json_dump_indent2_lines)
  ultimately show ?thesis by blast
qed

lemma int_of_str_123: "int_of_str ''123'' = Some 123"
  by (simp add: int_of_str_def literal_value_def int_max_str_digits_def int_space_def
      ascii_digit_def digit_val_def)

theorem save_id_map_coerces_to_int_witness:
  \<open>save_id_map None [(PStr ''123'', PInt 456)] =
     (Inr (), [WriteFile ''reupload_map.json''
                (''['' @ [CHR 0x0A] @
                 ''  {'' @ [CHR 0x0A] @
                 ''    "oldId": 123,'' @ [CHR 0x0A] @
                 ''    "newId": 456'' @ [CHR 0x0A] @
                 ''  }'' @ [CHR 0x0A] @
                 '']''),
               Print MsgMapSaved, Print MsgUseFile])
   \<and> int_of_str ''123'' = Some 123 \<and> int_of_str ''456'' = Some 456\<close>
proof -
  have l: "length ''123'' \<le> int_max_str_digits" by (simp add: int_max_str_digits_def)
  have h: "\<forall>v \<in> set (map fst [(PStr ''123'', PInt 456)] @ map snd [(PStr ''123'', PInt 456)]).
             (\<exists>i. v = PInt i \<and> \<bar>i\<bar> < 10 ^ int_max_str_digits)
             \<or> (\<exists>s. v = PStr s \<and> s \<noteq> [] \<and> list_all ascii_digit s
                    \<and> length s \<le> int_max_str_digits)"
    using million l by (simp add: ascii_digit_def)
  from save_id_map_coerces_to_int [OF h] obtain recs :: "id_pair list" where
    r: "list_all2 (\<lambda>(old, new) r. py_int old = Inr (oldId r) \<and> py_int new = Inr (newId r))
          [(PStr ''123'', PInt 456)] recs"
    and s: \<open>save_id_map None [(PStr ''123'', PInt 456)] =
               (Inr (), [WriteFile ''reupload_map.json''
                           (if recs = [] then ''[]''
                            else concat (map (\<lambda>l. l @ [CHR 0x0A])
                                   (''['' #
                                    concat (map (\<lambda>r. [''  {'',
                                                      ''    "oldId": '' @ show_int (oldId r) @ '','',
                                                      ''    "newId": '' @ show_int (newId r),
                                                      ''  },'']) (butlast recs)) @
                                    [''  {'',
                                     ''    "oldId": '' @ show_int (oldId (last recs)) @ '','',
                                     ''    "newId": '' @ show_int (newId (last recs)),
                                     ''  }''])) @ '']''),
                         Print MsgMapSaved, Print MsgUseFile])\<close>
    and f: "\<forall>r \<in> set recs. \<forall>i \<in> {oldId r, newId r}. int_of_str (show_int i) = Some i"
    by blast
  from r have recs: "recs = [\<lparr>oldId = 123, newId = 456\<rparr>]"
    by (auto simp: list_all2_Cons1 int_of_str_123)
  from f recs have "int_of_str (show_int 123) = Some 123" "int_of_str (show_int 456) = Some 456"
    by simp_all
  with s recs show ?thesis by (simp add: show_ints)
qed

section \<open>Properties of the session loops\<close>

lemma isdigit_int_nonneg: "isdigit s \<Longrightarrow> int_of_str s = Some i \<Longrightarrow> 0 \<le> i"
  using isdigit_unsigned [of s] by auto

lemma process_reupload_no_write: "WriteFile f c \<notin> set (snd (process_reupload net a dn dd ty))"
  by (auto simp: process_reupload_def Let_def split: option.splits sum.splits)

lemma process_reupload_True:
  "fst (process_reupload net a dn dd ty) = Inr (True, v) \<Longrightarrow> \<exists>i. int_of_str a = Some i"
  by (auto simp: process_reupload_def Let_def split: option.splits sum.splits if_splits)

lemma scan_prop_inv:
  "finite ids \<and> (\<forall>s \<in> ids. isdigit s)
   \<Longrightarrow> finite (scan_prop ids prop) \<and> (\<forall>s \<in> scan_prop ids prop. isdigit s)"
  by (auto simp: scan_prop_def Let_def split: option.splits)

lemma foldl_scan_prop_inv:
  "finite ids \<and> (\<forall>s \<in> ids. isdigit s)
   \<Longrightarrow> finite (foldl scan_prop ids props) \<and> (\<forall>s \<in> foldl scan_prop ids props. isdigit s)"
proof (induction props arbitrary: ids)
  case Nil
  then show ?case by simp
next
  case (Cons p props)
  show ?case using Cons.IH [OF scan_prop_inv [OF Cons.prems]] by simp
qed

lemma scan_item_inv:
  "finite ids \<and> (\<forall>s \<in> ids. isdigit s)
   \<Longrightarrow> finite (scan_item ids item) \<and> (\<forall>s \<in> scan_item ids item. isdigit s)"
  using foldl_scan_prop_inv by (auto simp: scan_item_def split: option.splits)

lemma foldl_scan_item_inv:
  "finite ids \<and> (\<forall>s \<in> ids. isdigit s)
   \<Longrightarrow> finite (foldl scan_item ids items) \<and> (\<forall>s \<in> foldl scan_item ids items. isdigit s)"
proof (induction items arbitrary: ids)
  case Nil
  then show ?case by simp
next
  case (Cons p items)
  show ?case using Cons.IH [OF scan_item_inv [OF Cons.prems]] by simp
qed

lemma extract_animation_ids_isdigit:
  "finite (fst (extract_animation_ids path parsed))
   \<and> (\<forall>s \<in> fst (extract_animation_ids path parsed). isdigit s)"
  using foldl_scan_item_inv [of "{}"] by (auto simp: extract_animation_ids_def split: sum.splits)

lemma batch_loop_inv:
  assumes "list_all (\<lambda>(old, new). \<exists>s i. old = PStr s \<and> int_of_str s = Some i \<and> 0 \<le> i) ps"
    and "list_all isdigit ids"
  shows "(\<forall>f c. WriteFile f c \<notin> set (snd (batch_loop nets pre dd ty n k ps ids)))
         \<and> (\<forall>ps'. fst (batch_loop nets pre dd ty n k ps ids) = Inr ps' \<longrightarrow>
               list_all (\<lambda>(old, new). \<exists>s i. old = PStr s \<and> int_of_str s = Some i \<and> 0 \<le> i) ps')"
  using assms
proof (induction ids arbitrary: k ps)
  case Nil
  then show ?case by simp
next
  case (Cons a ids)
  obtain r ev where pr: "process_reupload (nets k) a (pre @ a) dd ty = (r, ev)"
    by (cases "process_reupload (nets k) a (pre @ a) dd ty")
  have nw: "\<And>f c. WriteFile f c \<notin> set ev"
    using process_reupload_no_write [of _ _ "nets k" a "pre @ a" dd ty] pr by simp
  show ?case
  proof (cases r)
    case (Inl exn)
    then show ?thesis using pr nw by simp
  next
    case (Inr sv)
    obtain success new_id where sv: "sv = (success, new_id)" by (cases sv)
    let ?ps = "if success \<and> truthy new_id then ps @ [(PStr a, new_id)] else ps"
    have good: "list_all (\<lambda>(old, new). \<exists>s i. old = PStr s \<and> int_of_str s = Some i \<and> 0 \<le> i) ?ps"
    proof (cases "success \<and> truthy new_id")
      case True
      then have "fst (process_reupload (nets k) a (pre @ a) dd ty) = Inr (True, new_id)"
        using pr Inr sv by simp
      from process_reupload_True [OF this] obtain i where i: "int_of_str a = Some i" by blast
      moreover have "isdigit a" using Cons.prems(2) by simp
      ultimately have "0 \<le> i" using isdigit_int_nonneg by blast
      with i True Cons.prems(1) show ?thesis by simp
    next
      case False
      then show ?thesis using Cons.prems(1) by auto
    qed
    have ids: "list_all isdigit ids" using Cons.prems(2) by simp
    obtain r' ev' where bl: "batch_loop nets pre dd ty n (k + 1) ?ps ids = (r', ev')"
      by (cases "batch_loop nets pre dd ty n (k + 1) ?ps ids")
    from Cons.IH [OF good ids, of "k + 1"] bl
    have ih: "(\<forall>f c. WriteFile f c \<notin> set ev')
        \<and> (\<forall>ps'. r' = Inr ps' \<longrightarrow>
             list_all (\<lambda>(old, new). \<exists>s i. old = PStr s \<and> int_of_str s = Some i \<and> 0 \<le> i) ps')"
      by simp
    have "batch_loop nets pre dd ty n k ps (a # ids) = (r', [Print (MsgBatchCount (k + 1) n)] @ ev @ ev')"
      using pr Inr sv bl by (simp add: Let_def)
    then show ?thesis using ih nw by simp
  qed
qed

lemma map_data_loop_nonneg:
  assumes "list_all (\<lambda>(old, new). \<exists>s i. old = PStr s \<and> int_of_str s = Some i \<and> 0 \<le> i) ps"
    and "\<forall>p \<in> set acc. 0 \<le> oldId p" and "map_data_loop acc ps = Inr md"
  shows "\<forall>p \<in> set md. 0 \<le> oldId p"
  using assms
proof (induction ps arbitrary: acc)
  case Nil
  then show ?case by simp
next
  case (Cons p ps)
  obtain old new where p: "p = (old, new)" by (cases p)
  from Cons.prems(1) p obtain s i where o: "old = PStr s" "int_of_str s = Some i" "0 \<le> i"
    by auto
  from Cons.prems(3) p o obtain j where
    "map_data_loop (acc @ [\<lparr>oldId = i, newId = j\<rparr>]) ps = Inr md"
    by (auto split: sum.splits)
  moreover have "\<forall>p \<in> set (acc @ [\<lparr>oldId = i, newId = j\<rparr>]). 0 \<le> oldId p" for j
    using Cons.prems(2) o(3) by simp
  moreover have "list_all (\<lambda>(old, new). \<exists>s i. old = PStr s \<and> int_of_str s = Some i \<and> 0 \<le> i) ps"
    using Cons.prems(1) by simp
  ultimately show ?case using Cons.IH by blast
qed

lemma save_id_map_nonneg:
  assumes "list_all (\<lambda>(old, new). \<exists>s i. old = PStr s \<and> int_of_str s = Some i \<and> 0 \<le> i) ps"
    and "WriteFile f c \<in> set (snd (save_id_map we ps))"
  shows "\<exists>md. c = json_dump_indent2 md \<and> (\<forall>p \<in> set md. 0 \<le> oldId p)"
proof (cases "map_data_loop [] ps")
  case (Inl exn)
  then show ?thesis using assms(2) by (simp add: save_id_map_def)
next
  case (Inr md)
  have "\<forall>p \<in> set md. 0 \<le> oldId p" using map_data_loop_nonneg [OF assms(1) _ Inr] by simp
  moreover have "c = json_dump_indent2 md"
    using assms(2) Inr by (auto simp: save_id_map_def split: option.splits)
  ultimately show ?thesis by blast
qed

lemma batch_reupload_nonneg:
  assumes "finite ids" and "\<forall>s \<in> ids. isdigit s"
    and "WriteFile f c \<in> set (snd (batch_reupload nets we ids pre dd ty))"
  shows "\<exists>md. c = json_dump_indent2 md \<and> (\<forall>p \<in> set md. 0 \<le> oldId p)"
proof -
  let ?bl = "batch_loop nets pre dd ty (card ids) 0 [] (sorted_list_of_set ids)"
  have ids: "list_all isdigit (sorted_list_of_set ids)"
    using assms(1,2) by (simp add: list_all_iff)
  have inv: "(\<forall>f c. WriteFile f c \<notin> set (snd ?bl))
      \<and> (\<forall>ps'. fst ?bl = Inr ps' \<longrightarrow>
            list_all (\<lambda>(old, new). \<exists>s i. old = PStr s \<and> int_of_str s = Some i \<and> 0 \<le> i) ps')"
    by (rule batch_loop_inv [OF _ ids]) simp
  obtain r ev where bl: "?bl = (r, ev)" by (cases ?bl)
  show ?thesis
  proof (cases r)
    case (Inl exn)
    then show ?thesis using assms(3) bl inv by (simp add: batch_reupload_def Let_def)
  next
    case (Inr ps')
    then have good: "list_all (\<lambda>(old, new). \<exists>s i. old = PStr s \<and> int_of_str s = Some i \<and> 0 \<le> i) ps'"
      using inv bl by simp
    have "WriteFile f c \<in> set (snd (save_id_map we ps'))"
      using assms(3) bl Inr inv by (auto simp: batch_reupload_def Let_def split: if_splits prod.splits)
    then show ?thesis using save_id_map_nonneg [OF good] by blast
  qed
qed

lemma manual_loop_nonneg:
  assumes "list_all (\<lambda>(old, new). \<exists>s i. old = PStr s \<and> int_of_str s = Some i \<and> 0 \<le> i) ps"
    and "WriteFile f c \<in> set (snd (manual_loop nets we k ps lines))"
  shows "\<exists>md. c = json_dump_indent2 md \<and> (\<forall>p \<in> set md. 0 \<le> oldId p)"
  using assms
proof (induction "length lines" arbitrary: lines k ps rule: less_induct)
  case less
  note good = less.prems(1) and wr = less.prems(2)
  show ?case
  proof (cases lines)
    case Nil
    then show ?thesis using wr by simp
  next
    case (Cons line rest)
    let ?aid = "strip line"
    consider (leaving) "lower ?aid \<in> {''q'', ''quit'', ''exit''}"
      | (returning) "lower ?aid \<notin> {''q'', ''quit'', ''exit''}" "lower ?aid = ''b''"
      | (rejected) "lower ?aid \<notin> {''q'', ''quit'', ''exit''}" "lower ?aid \<noteq> ''b''" "\<not> isdigit ?aid"
      | (running) "lower ?aid \<notin> {''q'', ''quit'', ''exit''}" "lower ?aid \<noteq> ''b''" "isdigit ?aid"
      by blast
    then show ?thesis
    proof cases
      case leaving
      then have "WriteFile f c \<in> set (snd (save_id_map we ps))"
        using wr Cons by (auto simp: Let_def split: if_splits prod.splits sum.splits)
      then show ?thesis using save_id_map_nonneg [OF good] by blast
    next
      case returning
      then have "WriteFile f c \<in> set (snd (save_id_map we ps))"
        using wr Cons by (auto simp: Let_def split: if_splits prod.splits sum.splits)
      then show ?thesis using save_id_map_nonneg [OF good] by blast
    next
      case rejected
      then have "WriteFile f c \<in> set (snd (manual_loop nets we k ps rest))"
        using wr Cons by (auto simp: Let_def split: if_splits prod.splits sum.splits)
      then show ?thesis using less.hyps [of rest ps k] good Cons by simp
    next
      case running
      show ?thesis
      proof (cases "\<exists>l1 l2 l3 rest'. rest = l1 # l2 # l3 # rest'")
        case False
        then have "manual_loop nets we k ps lines = (Inl EOFError, [])"
          using running Cons by (auto simp: Let_def split: list.splits)
        then show ?thesis using wr by simp
      next
        case True
        then obtain l1 l2 l3 rest' where rest: "rest = l1 # l2 # l3 # rest'" by blast
        let ?dname = "or_str (strip l1) (''Reupload_'' @ ?aid)"
        let ?pr = "process_reupload (nets k) ?aid ?dname (strip l2) (or_str (strip l3) ''Model'')"
        obtain r ev where pr: "?pr = (r, ev)" by (cases ?pr)
        have nw: "WriteFile f c \<notin> set ev"
          using process_reupload_no_write [of f c "nets k" ?aid ?dname "strip l2"
              "or_str (strip l3) ''Model''"] pr by simp
        show ?thesis
        proof (cases r)
          case (Inl exn)
          then have "manual_loop nets we k ps lines = (Inl exn, ev)"
            using running Cons rest pr by (simp add: Let_def)
          then show ?thesis using wr nw by simp
        next
          case (Inr sv)
          obtain success new_id where sv: "sv = (success, new_id)" by (cases sv)
          let ?ps = "if success \<and> truthy new_id then ps @ [(PStr ?aid, new_id)] else ps"
          have good': "list_all (\<lambda>(old, new). \<exists>s i. old = PStr s \<and> int_of_str s = Some i \<and> 0 \<le> i) ?ps"
          proof (cases "success \<and> truthy new_id")
            case True
            then have "fst ?pr = Inr (True, new_id)" using pr Inr sv by simp
            from process_reupload_True [OF this] obtain i where i: "int_of_str ?aid = Some i"
              by blast
            then have "0 \<le> i" using isdigit_int_nonneg running(3) by blast
            with i True good show ?thesis by simp
          next
            case False
            then show ?thesis using good by auto
          qed
          obtain r' ev' where ml: "manual_loop nets we (k + 1) ?ps rest' = (r', ev')"
            by (cases "manual_loop nets we (k + 1) ?ps rest'")
          have "manual_loop nets we k ps lines = (r', ev @ ev')"
            using running Cons rest pr Inr sv ml by (simp add: Let_def)
          then have "WriteFile f c \<in> set ev'" using wr nw by simp
          then have "WriteFile f c \<in> set (snd (manual_loop nets we (k + 1) ?ps rest'))"
            using ml by simp
          moreover have "length rest' < length lines" using Cons rest by simp
          ultimately show ?thesis using less.hyps [of rest' ?ps "k + 1"] good' by blast
        qed
      qed
    qed
  qed
qed

text \<open>
  Claim C7, amended. Whatever the network answers, every file written by a batch over
  the identifiers the extractor found, or by a manual session, is the dump of a list of
  mappings with integer fields in which every \<open>oldId\<close> is at least zero: both loops run
  only strings that pass \<open>isdigit\<close>, and only those \<open>int\<close> accepts reach the list.
\<close>

theorem persisted_old_ids_non_negative:
  assumes "WriteFile f c \<in>
             set (snd (batch_reupload nets we (fst (extract_animation_ids path parsed)) pre dd ty))
             \<union> set (snd (manual_loop nets' we' k [] lines))"
  shows "\<exists>md. c = json_dump_indent2 md \<and> (\<forall>p \<in> set md. 0 \<le> oldId p)"
proof -
  from assms consider
    (batch) "WriteFile f c \<in>
      set (snd (batch_reupload nets we (fst (extract_animation_ids path parsed)) pre dd ty))"
    | (manual) "WriteFile f c \<in> set (snd (manual_loop nets' we' k [] lines))"
    by blast
  then show ?thesis
  proof cases
    case batch
    then show ?thesis
      using batch_reupload_nonneg extract_animation_ids_isdigit [of path parsed] by blast
  next
    case manual
    then show ?thesis using manual_loop_nonneg [of "[]"] by simp
  qed
qed

lemma small_not_too_long: "\<bar>i\<bar> < 1000000 \<Longrightarrow> \<not> too_long i"
  using not_too_long [of i] million by simp

lemma manual_one_id:
  "int_of_str aid = Some i \<Longrightarrow> isdigit aid \<Longrightarrow> strip aid = aid \<Longrightarrow>
   lower aid \<notin> {''q'', ''quit'', ''exit'', ''b''} \<Longrightarrow> truthy v \<Longrightarrow> py_int v = Inr j \<Longrightarrow>
   \<not> too_long i \<Longrightarrow> \<not> too_long j \<Longrightarrow>
   WriteFile ''reupload_map.json'' (json_dump_indent2 [\<lparr>oldId = i, newId = j\<rparr>])
     \<in> set (snd (manual_loop (fixed_nets (Inr some_file) (Inr (PDict [(''assetId'', v)]))) None 0 []
                   [aid, [], [], [], ''b'']))"
  by (simp add: Let_def process_reupload_def fixed_nets_def fixed_net_def resolve_new_id_def
      dict_get_def dict_get_default_def strip_def isspace_char_def lower_def lower_char_def
      or_str_def save_id_map_def)

text \<open>
  Claim C7 as stated fails. A batch over the identifier \<open>123\<close> whose publish answers
  \<open>{"assetId": 123}\<close> saves the mapping with \<open>oldId = newId = 123\<close>; a manual session
  that is given \<open>0\<close> and whose publish answers \<open>{"assetId": -5}\<close> saves \<open>oldId = 0\<close> and
  \<open>newId = -5\<close>.
\<close>

theorem distinct_positive_ids_counterexample:
  "WriteFile ''reupload_map.json'' (json_dump_indent2 [\<lparr>oldId = 123, newId = 123\<rparr>])
     \<in> set (snd (batch_reupload (fixed_nets (Inr some_file) (Inr (PDict [(''assetId'', PInt 123)])))
                   None {''123''} ''copy_'' ''desc'' ''Animation''))
   \<and> WriteFile ''reupload_map.json'' (json_dump_indent2 [\<lparr>oldId = 0, newId = - 5\<rparr>])
     \<in> set (snd (manual_loop (fixed_nets (Inr some_file) (Inr (PDict [(''assetId'', PInt (- 5))])))
                   None 0 [] [''0'', [], [], [], ''b'']))"
proof
  show "WriteFile ''reupload_map.json'' (json_dump_indent2 [\<lparr>oldId = 123, newId = 123\<rparr>])
     \<in> set (snd (batch_reupload (fixed_nets (Inr some_file) (Inr (PDict [(''assetId'', PInt 123)])))
                   None {''123''} ''copy_'' ''desc'' ''Animation''))"
    by (simp add: batch_reupload_def Let_def process_reupload_def fixed_nets_def fixed_net_def
        resolve_new_id_def dict_get_def dict_get_default_def int_of_str_123 save_id_map_def
        small_not_too_long)
  show "WriteFile ''reupload_map.json'' (json_dump_indent2 [\<lparr>oldId = 0, newId = - 5\<rparr>])
     \<in> set (snd (manual_loop (fixed_nets (Inr some_file) (Inr (PDict [(''assetId'', PInt (- 5))])))
                   None 0 [] [''0'', [], [], [], ''b'']))"
    by (rule manual_one_id)
      (simp_all add: int_of_str_0 isdigit_def isdigit_char_def strip_def isspace_char_def
        lower_def lower_char_def small_not_too_long)
qed

theorem persisted_old_ids_non_negative_witness:
  "WriteFile ''reupload_map.json'' (json_dump_indent2 [\<lparr>oldId = 123, newId = 456\<rparr>])
     \<in> set (snd (batch_reupload (fixed_nets (Inr some_file) (Inr (PDict [(''assetId'', PInt 456)])))
                    None (fst (extract_animation_ids ''place.rbxl'' (Inl ''no such file'')))
                    ''copy_'' ''desc'' ''Animation''))
       \<union> set (snd (manual_loop (fixed_nets (Inr some_file) (Inr (PDict [(''assetId'', PInt 456)])))
                    None 0 [] [''123'', [], [], [], ''b'']))
   \<and> (\<exists>md. json_dump_indent2 [\<lparr>oldId = 123, newId = 456\<rparr>] = json_dump_indent2 md
            \<and> (\<forall>p \<in> set md. 0 \<le> oldId p))"
proof -
  have m: "WriteFile ''reupload_map.json'' (json_dump_indent2 [\<lparr>oldId = 123, newId = 456\<rparr>])
     \<in> set (snd (manual_loop (fixed_nets (Inr some_file) (Inr (PDict [(''assetId'', PInt 456)])))
                    None 0 [] [''123'', [], [], [], ''b'']))"
    by (rule manual_one_id)
      (simp_all add: int_of_str_123 isdigit_def isdigit_char_def strip_def isspace_char_def
        lower_def lower_char_def small_not_too_long)
  then have h: "WriteFile ''reupload_map.json'' (json_dump_indent2 [\<lparr>oldId = 123, newId = 456\<rparr>])
     \<in> set (snd (batch_reupload (fixed_nets (Inr some_file) (Inr (PDict [(''assetId'', PInt 456)])))
                    None (fst (extract_animation_ids ''place.rbxl'' (Inl ''no such file'')))
                    ''copy_'' ''desc'' ''Animation''))
       \<union> set (snd (manual_loop (fixed_nets (Inr some_file) (Inr (PDict [(''assetId'', PInt 456)])))
                    None 0 [] [''123'', [], [], [], ''b'']))"
    by simp
  from persisted_old_ids_non_negative [OF h] h show ?thesis by blast
qed

end
